theory Spec2Isabelle
  imports Complex_Main "HOL-Library.Multiset"
begin

section \<open>The RBM splitter: data model\<close>

text \<open>
  A shallow embedding of \<^verbatim>\<open>reco_utils/dataset/rbm_splitters.py\<close> (class \<^verbatim>\<open>splitter\<close>).

  \<^item> The dataframe is a list of rows \<open>(user, item, rating)\<close>. User identifiers are
    ordered (the frame is sorted by them); item identifiers are arbitrary.
  \<^item> Ratings are elements of a commutative additive monoid: Python integers
    (\<open>int\<close>), exact fractions, or 64-bit machine integers (\<open>64 word\<close>, whose sum
    wraps around) are all instances. IEEE floating point is not.
  \<^item> A numpy array is an object in a store, referred to by its address; a copy
    allocates a new address, an indexed assignment writes to the store.
  \<^item> A pandas column that went through \<^verbatim>\<open>Series.map(dict)\<close> holds \<open>Some v\<close> where
    the key was found and \<open>None\<close> (pandas: NaN) where it was not.
  \<^item> Every \<^verbatim>\<open>raise\<close> is a value \<open>Inl e\<close> of the result type.
\<close>

datatype error =
    ValueError string
  | IndexError string
  | UnboundLocalError string
  | AssertionError

type_synonym 'r matrix = "'r list list"

type_synonym ('u, 'i, 'r) frame = "('u \<times> 'i \<times> 'r) list"

type_synonym ('u, 'i, 'r) out_frame = "('u option \<times> 'i option \<times> 'r) list"

definition col_user :: "'u \<times> 'i \<times> 'r \<Rightarrow> 'u" where
  "col_user row = fst row"

definition col_item :: "'u \<times> 'i \<times> 'r \<Rightarrow> 'i" where
  "col_item row = fst (snd row)"

definition col_rating :: "'u \<times> 'i \<times> 'r \<Rightarrow> 'r" where
  "col_rating row = snd (snd row)"

text \<open>
  The process state outside the object: the store of numpy arrays (\<open>cells\<close>, with
  \<open>next_addr\<close> the first unused address), the seed last given to numpy's global
  generator (this program never draws from it), and the state of the global generator of
  Python's \<^verbatim>\<open>random\<close> module. The latter is the sequence of raw values it will
  deliver next; a draw below \<open>n\<close> consumes one raw value.
\<close>

record 'r world =
  cells :: "nat \<Rightarrow> 'r matrix"
  next_addr :: nat
  np_random :: "int option"
  py_random :: "nat \<Rightarrow> nat"

text \<open>The attributes of a \<^verbatim>\<open>splitter\<close> object; \<open>AM\<close> is the address of the array.\<close>

record ('u, 'i, 'r) splitter =
  df :: "('u, 'i, 'r) frame"
  df_sorted :: "('u, 'i, 'r) frame"
  Nusers :: nat
  Nitems :: nat
  map_users :: "'u \<rightharpoonup> nat"
  map_items :: "'i \<rightharpoonup> nat"
  map_back_users :: "nat \<rightharpoonup> 'u"
  map_back_items :: "nat \<rightharpoonup> 'i"
  AM :: nat

text \<open>
  \<^verbatim>\<open>__init__\<close> stores the frame (persistence is off by default and not modelled).
  The other attributes do not exist in Python until \<^verbatim>\<open>gen_index\<close> and
  \<^verbatim>\<open>gen_affinity_matrix\<close> assign them; they are never read before that here.
\<close>

definition init :: "('u, 'i, 'r) frame \<Rightarrow> ('u, 'i, 'r) splitter" where
  "init DF = \<lparr>df = DF, df_sorted = [], Nusers = 0, Nitems = 0,
     map_users = Map.empty, map_items = Map.empty,
     map_back_users = Map.empty, map_back_items = Map.empty, AM = 0\<rparr>"

section \<open>gen_index\<close>

text \<open>\<^verbatim>\<open>Series.unique()\<close>: the distinct values in order of first appearance.\<close>

definition unique :: "'a list \<Rightarrow> 'a list" where
  "unique xs = rev (remdups (rev xs))"

text \<open>A dict comprehension inserts the pairs from left to right; a later key overwrites.\<close>

definition dict_of :: "('k \<times> 'v) list \<Rightarrow> ('k \<rightharpoonup> 'v)" where
  "dict_of kvs = fold (\<lambda>(k, v) m. m(k \<mapsto> v)) kvs Map.empty"

text \<open>
  \<^verbatim>\<open>df.sort_values(by=[col_user])\<close>. Rows of the same user keep their order here;
  the results below that mention the frame only use its rows as a set or multiset.
\<close>

definition sort_values :: "('u::linorder, 'i, 'r) frame \<Rightarrow> ('u, 'i, 'r) frame" where
  "sort_values d = sort_key col_user d"

definition gen_index :: "('u::linorder, 'i, 'r) splitter \<Rightarrow> ('u, 'i, 'r) splitter" where
  "gen_index s =
     (let d = sort_values (df s);
          unique_users = unique (map col_user d);
          unique_items = unique (map col_item d)
      in s\<lparr>df_sorted := d,
           Nusers := length unique_users,
           Nitems := length unique_items,
           map_users := dict_of (map (\<lambda>(i, x). (x, i)) (enumerate 0 unique_users)),
           map_items := dict_of (map (\<lambda>(i, x). (x, i)) (enumerate 0 unique_items)),
           map_back_users := dict_of (enumerate 0 unique_users),
           map_back_items := dict_of (enumerate 0 unique_items)\<rparr>)"

section \<open>gen_affinity_matrix\<close>

text \<open>
  \<^verbatim>\<open>Series.map(d)\<close> with a dict \<open>d\<close>: every value is looked up in \<open>d\<close>; a value that
  is not a key of \<open>d\<close> becomes NaN (\<open>None\<close>). It does not raise.
\<close>

definition series_map :: "('k \<rightharpoonup> 'v) \<Rightarrow> 'k list \<Rightarrow> 'v option list" where
  "series_map d xs = map d xs"

definition zeros :: "nat \<Rightarrow> nat \<Rightarrow> ('r::zero) matrix" where
  "zeros m n = replicate m (replicate n 0)"

text \<open>
  \<^verbatim>\<open>coo_matrix((data, (row, col)), shape).toarray()\<close>: the indices are validated against
  the shape, then every entry is added to its cell of a zero array, in order.
\<close>

definition coo_add :: "nat \<times> nat \<times> 'r \<Rightarrow> ('r::comm_monoid_add) matrix \<Rightarrow> 'r matrix" where
  "coo_add e B = (case e of (i, j, v) \<Rightarrow> B[i := (B ! i)[j := B ! i ! j + v]])"

definition coo_toarray ::
  "nat \<times> nat \<Rightarrow> (nat \<times> nat \<times> 'r) list \<Rightarrow> error + ('r::comm_monoid_add) matrix" where
  "coo_toarray shape entries =
     (case shape of (M, N) \<Rightarrow>
        if \<not> list_all (\<lambda>e. fst e < M) entries
          then Inl (ValueError ''row index exceeds matrix dimensions'')
        else if \<not> list_all (\<lambda>e. fst (snd e) < N) entries
          then Inl (ValueError ''column index exceeds matrix dimensions'')
        else Inr (fold coo_add entries (zeros M N)))"

definition coo_matrix ::
  "'r list \<Rightarrow> nat option list \<Rightarrow> nat option list \<Rightarrow> nat \<times> nat \<Rightarrow>
   error + ('r::comm_monoid_add) matrix" where
  "coo_matrix r usr_id itm_id shape =
     (if None \<in> set usr_id \<or> None \<in> set itm_id
        then Inl (ValueError ''index is not an integer'')
      else coo_toarray shape (zip (map the usr_id) (zip (map the itm_id) r)))"

text \<open>Allocation of a new array in the store.\<close>

definition new_array :: "'r matrix \<Rightarrow> 'r world \<Rightarrow> nat \<times> 'r world" where
  "new_array A w =
     (next_addr w, w\<lparr>cells := (cells w)(next_addr w := A), next_addr := Suc (next_addr w)\<rparr>)"

definition count_zero :: "('r::zero) matrix \<Rightarrow> nat" where
  "count_zero A = sum_list (map (\<lambda>row. length (filter (\<lambda>x. x = 0) row)) A)"

text \<open>
  After the array is built the method prints the sparsity:
  \<^verbatim>\<open>zero/total*100\<close> formatted with \<^verbatim>\<open>%d\<close>. \<open>zero\<close> is a numpy integer, so with
  \<open>total = 0\<close> the quotient is NaN (numpy warns, it does not raise) and formatting NaN
  with \<^verbatim>\<open>%d\<close> raises ValueError. With \<open>total > 0\<close> the print succeeds; its output
  is not modelled.
\<close>

definition gen_affinity_matrix ::
  "('u, 'i, 'r::comm_monoid_add) splitter \<Rightarrow> 'r world \<Rightarrow>
   error + (('u, 'i, 'r) splitter \<times> 'r world)" where
  "gen_affinity_matrix s w =
     (let hashedItems = series_map (map_items s) (map col_item (df_sorted s));
          hashedUsers = series_map (map_users s) (map col_user (df_sorted s));
          r = map col_rating (df_sorted s);
          itm_id = hashedItems;
          usr_id = hashedUsers
      in if \<not> (length usr_id = length r \<and> length itm_id = length r) then Inl AssertionError
         else (case coo_matrix r usr_id itm_id (Nusers s, Nitems s) of
           Inl e \<Rightarrow> Inl e
         | Inr A \<Rightarrow>
             (let (a, w') = new_array A w;
                  s' = s\<lparr>AM := a\<rparr>;
                  zero = count_zero (cells w' (AM s'));
                  total = Nusers s * Nitems s
              in if total = 0 then Inl (ValueError ''cannot convert float NaN to integer'')
                 else Inr (s', w'))))"

section \<open>map_back_sparse\<close>

text \<open>\<^verbatim>\<open>np.where(row != 0)\<close>: the columns of the non-zero cells, ascending.\<close>

definition nonzero_idx :: "('r::zero) list \<Rightarrow> nat list" where
  "nonzero_idx row = filter (\<lambda>j. row ! j \<noteq> 0) [0..<length row]"

definition map_back_sparse ::
  "('u, 'i, 'r::zero) splitter \<Rightarrow> 'r matrix \<Rightarrow> ('u, 'i, 'r) out_frame" where
  "map_back_sparse s X =
     (let m = length X;
          items = map (\<lambda>i. nonzero_idx (X ! i)) [0..<m];
          ratings = map (\<lambda>i. map (\<lambda>j. X ! i ! j) (items ! i)) [0..<m];
          userids = concat (map (\<lambda>i. replicate (length (items ! i)) i) [0..<m]);
          items' = concat items;
          ratings' = concat ratings;
          out_user = series_map (map_back_users s) userids;
          out_item = series_map (map_back_items s) items'
      in zip out_user (zip out_item ratings'))"

section \<open>stratified_split\<close>

text \<open>
  \<^verbatim>\<open>np.random.seed(seed)\<close> seeds numpy's global generator; it accepts seeds in
  \<open>[0, 2^32)\<close> only.
\<close>

definition np_random_seed :: "int \<Rightarrow> 'r world \<Rightarrow> error + 'r world" where
  "np_random_seed seed w =
     (if 0 \<le> seed \<and> seed < 2 ^ 32 then Inr (w\<lparr>np_random := Some seed\<rparr>)
      else Inl (ValueError ''Seed must be between 0 and 2**32 - 1''))"

text \<open>
  Python's \<^verbatim>\<open>int(x)\<close> truncates towards zero. The ratio is an exact fraction: the
  rounding of binary floating point in \<^verbatim>\<open>(1-ratio)*100\<close> is not modelled.
\<close>

definition py_int :: "rat \<Rightarrow> int" where
  "py_int x = (if 0 \<le> x then \<lfloor>x\<rfloor> else \<lceil>x\<rceil>)"

definition test_cut :: "rat \<Rightarrow> int" where
  "test_cut ratio = py_int ((1 - ratio) * 100)"

text \<open>\<^verbatim>\<open>np.sum(row != 0)\<close>.\<close>

definition nnz :: "('r::zero) list \<Rightarrow> nat" where
  "nnz row = length (filter (\<lambda>x. x \<noteq> 0) row)"

text \<open>\<^verbatim>\<open>A.copy()\<close> allocates a new array with the same contents.\<close>

definition ndarray_copy :: "nat \<Rightarrow> 'r world \<Rightarrow> nat \<times> 'r world" where
  "ndarray_copy a w = new_array (cells w a) w"

text \<open>\<^verbatim>\<open>X[u, js] = 0\<close> on the array at address \<open>a\<close>.\<close>

definition set_zero :: "('r::zero) matrix \<Rightarrow> nat \<Rightarrow> nat list \<Rightarrow> 'r matrix" where
  "set_zero X u js = X[u := fold (\<lambda>j row. row[j := 0]) js (X ! u)]"

definition assign_zero :: "nat \<Rightarrow> nat \<Rightarrow> nat list \<Rightarrow> ('r::zero) world \<Rightarrow> 'r world" where
  "assign_zero a u js w = w\<lparr>cells := (cells w)(a := set_zero (cells w a) u js)\<rparr>"

text \<open>
  \<^verbatim>\<open>random.choice(seq)\<close> draws an index below \<open>len(seq)\<close> from the global generator of
  the \<^verbatim>\<open>random\<close> module and raises IndexError on an empty sequence;
  \<^verbatim>\<open>list.remove(x)\<close> deletes the first occurrence and raises ValueError if there is none.
\<close>

definition randbelow :: "(nat \<Rightarrow> nat) \<Rightarrow> nat \<Rightarrow> nat \<times> (nat \<Rightarrow> nat)" where
  "randbelow g n = (g 0 mod n, \<lambda>k. g (Suc k))"

definition choice :: "(nat \<Rightarrow> nat) \<Rightarrow> 'a list \<Rightarrow> error + ('a \<times> (nat \<Rightarrow> nat))" where
  "choice g seq =
     (if seq = [] then Inl (IndexError ''Cannot choose from an empty sequence'')
      else case randbelow g (length seq) of (k, g') \<Rightarrow> Inr (seq ! k, g'))"

definition list_remove :: "'a list \<Rightarrow> 'a \<Rightarrow> error + 'a list" where
  "list_remove xs x =
     (if x \<in> set xs then Inr (remove1 x xs)
      else Inl (ValueError ''list.remove(x): x not in list''))"

text \<open>
  The local variables of \<^verbatim>\<open>stratified_split\<close> that are assigned inside the loops only:
  \<open>None\<close> is an unbound name.
\<close>

record locals =
  loc_idx :: "nat list option"
  loc_sub_el :: "nat option"
  loc_idx_tst :: "nat list option"

definition unbound :: locals where
  "unbound = \<lparr>loc_idx = None, loc_sub_el = None, loc_idx_tst = None\<rparr>"

text \<open>
  The inner loop \<^verbatim>\<open>for i in range(n)\<close>: choose, remove, append. It returns the
  remaining candidates, the chosen ones, the last value of \<^verbatim>\<open>sub_el\<close> and the generator.
\<close>

fun sample ::
  "nat \<Rightarrow> nat list \<Rightarrow> nat list \<Rightarrow> nat option \<Rightarrow> (nat \<Rightarrow> nat) \<Rightarrow>
   error + (nat list \<times> nat list \<times> nat option \<times> (nat \<Rightarrow> nat))" where
  "sample 0 idx idx_tst sub_el g = Inr (idx, idx_tst, sub_el, g)"
| "sample (Suc n) idx idx_tst sub_el g =
     (case choice g idx of
        Inl e \<Rightarrow> Inl e
      | Inr (x, g') \<Rightarrow>
          (case list_remove idx x of
             Inl e \<Rightarrow> Inl e
           | Inr idx' \<Rightarrow> sample n idx' (idx_tst @ [x]) (Some x) g'))"

text \<open>
  The body of the outer loop for user \<open>u\<close>; \<open>xtr\<close> and \<open>xtst\<close> are the addresses of
  the two working arrays. \<^verbatim>\<open>range(k)\<close> of a negative \<open>k\<close> is empty.
\<close>

definition split_row ::
  "nat \<Rightarrow> nat \<Rightarrow> nat list \<Rightarrow> int list \<Rightarrow> nat \<Rightarrow> ('r::zero) world \<times> locals \<Rightarrow>
   error + ('r world \<times> locals)" where
  "split_row xtr xtst rated tst u st =
     (case st of (w, loc) \<Rightarrow>
        (case sample (nat (tst ! u)) (nonzero_idx (cells w xtr ! u)) [] (loc_sub_el loc)
                (py_random w) of
           Inl e \<Rightarrow> Inl e
         | Inr (idx, idx_tst, sub_el, g) \<Rightarrow>
             (let w1 = w\<lparr>py_random := g\<rparr>;
                  w2 = assign_zero xtr u idx_tst w1;
                  w3 = assign_zero xtst u idx w2
              in if nnz (cells w3 xtr ! u) + nnz (cells w3 xtst ! u) = rated ! u
                 then Inr (w3, \<lparr>loc_idx = Some idx, loc_sub_el = sub_el,
                                 loc_idx_tst = Some idx_tst\<rparr>)
                 else Inl AssertionError)))"

fun split_loop ::
  "nat \<Rightarrow> nat \<Rightarrow> nat list \<Rightarrow> int list \<Rightarrow> nat list \<Rightarrow> ('r::zero) world \<times> locals \<Rightarrow>
   error + ('r world \<times> locals)" where
  "split_loop xtr xtst rated tst [] st = Inr st"
| "split_loop xtr xtst rated tst (u # us) st =
     (case split_row xtr xtst rated tst u st of
        Inl e \<Rightarrow> Inl e
      | Inr st' \<Rightarrow> split_loop xtr xtst rated tst us st')"

text \<open>\<^verbatim>\<open>del idx, sub_el, idx_tst\<close>: deleting an unbound local raises.\<close>

definition del_locals :: "locals \<Rightarrow> error + unit" where
  "del_locals loc =
     (if loc_idx loc = None then Inl (UnboundLocalError ''idx'')
      else if loc_sub_el loc = None then Inl (UnboundLocalError ''sub_el'')
      else if loc_idx_tst loc = None then Inl (UnboundLocalError ''idx_tst'')
      else Inr ())"

record ('u, 'i, 'r) split_result =
  Xtr :: nat
  Xtst :: nat
  train_df :: "('u, 'i, 'r) out_frame"
  test_df :: "('u, 'i, 'r) out_frame"
  maps :: "(nat \<rightharpoonup> 'u) \<times> (nat \<rightharpoonup> 'i)"

definition stratified_split ::
  "('u::linorder, 'i, 'r::comm_monoid_add) splitter \<Rightarrow> rat \<Rightarrow> int \<Rightarrow> 'r world \<Rightarrow>
   error + (('u, 'i, 'r) split_result \<times> ('u, 'i, 'r) splitter \<times> 'r world)" where
  "stratified_split s ratio seed w =
     (case np_random_seed seed w of
        Inl e \<Rightarrow> Inl e
      | Inr w0 \<Rightarrow>
          (let tc = test_cut ratio;
               s1 = gen_index s;
               mps = (map_back_users s1, map_back_items s1)
           in case gen_affinity_matrix s1 w0 of
                Inl e \<Rightarrow> Inl e
              | Inr (s2, w1) \<Rightarrow>
                  (let (xtr, w2) = ndarray_copy (AM s2) w1;
                       (xtst, w3) = ndarray_copy (AM s2) w2;
                       rated = map nnz (cells w3 xtr);
                       tst = map (\<lambda>r. (int r * tc) div 100) rated
                   in case split_loop xtr xtst rated tst [0..<Nusers s2] (w3, unbound) of
                        Inl e \<Rightarrow> Inl e
                      | Inr (w4, loc) \<Rightarrow>
                          (case del_locals loc of
                             Inl e \<Rightarrow> Inl e
                           | Inr _ \<Rightarrow>
                               Inr (\<lparr>Xtr = xtr, Xtst = xtst,
                                      train_df = map_back_sparse s2 (cells w4 xtr),
                                      test_df = map_back_sparse s2 (cells w4 xtst),
                                      maps = mps\<rparr>, s2, w4)))))"

section \<open>Derived notions used in the statements and proofs\<close>

text \<open>The forward and backward index maps that \<open>gen_index\<close> builds from a column.\<close>

definition fwd_map :: "'a list \<Rightarrow> ('a \<rightharpoonup> nat)" where
  "fwd_map xs = dict_of (map (\<lambda>(i, x). (x, i)) (enumerate 0 (unique xs)))"

definition back_map :: "'a list \<Rightarrow> (nat \<rightharpoonup> 'a)" where
  "back_map xs = dict_of (enumerate 0 (unique xs))"

text \<open>The sum of the values of the coordinate entries that address cell \<open>(u, j)\<close>.\<close>

definition cell_sum :: "nat \<Rightarrow> nat \<Rightarrow> (nat \<times> nat \<times> 'r) list \<Rightarrow> 'r::comm_monoid_add" where
  "cell_sum u j entries =
     sum_list (map (\<lambda>e. snd (snd e)) (filter (\<lambda>e. fst e = u \<and> fst (snd e) = j) entries))"

text \<open>
  The coordinate entries that \<open>gen_affinity_matrix\<close> hands to \<open>coo_matrix\<close>, and the
  array it builds from them.
\<close>

definition hashed :: "('u, 'i, 'r) splitter \<Rightarrow> (nat \<times> nat \<times> 'r) list" where
  "hashed s = map (\<lambda>row. (the (map_users s (col_user row)), the (map_items s (col_item row)),
                           col_rating row)) (df_sorted s)"

definition affinity :: "('u, 'i, 'r::comm_monoid_add) splitter \<Rightarrow> 'r matrix" where
  "affinity s = fold coo_add (hashed s) (zeros (Nusers s) (Nitems s))"




text \<open>
  A process state to run examples in: an empty store, numpy's generator unseeded, and
  the generator of \<^verbatim>\<open>random\<close> about to deliver the raw values 0, 1, 2, ...
\<close>

definition world0 :: "'r world" where
  "world0 = \<lparr>cells = (\<lambda>a. []), next_addr = 0, np_random = None, py_random = (\<lambda>k. k)\<rparr>"

text \<open>
  A row with the cells at the given columns set to zero, and the relation between a row
  of the source matrix and the rows of the train and test matrices: every cell of the
  source row is in exactly one of the two, the other one holds zero there.
\<close>

definition zero_cols :: "nat list \<Rightarrow> ('r::zero) list \<Rightarrow> 'r list" where
  "zero_cols js row = fold (\<lambda>j row. row[j := 0]) js row"

definition row_split :: "('r::zero) list \<Rightarrow> 'r list \<Rightarrow> 'r list \<Rightarrow> bool" where
  "row_split orig tr ts \<longleftrightarrow>
     length tr = length orig \<and> length ts = length orig \<and>
     (\<forall>j < length orig. (tr ! j = orig ! j \<and> ts ! j = 0) \<or> (tr ! j = 0 \<and> ts ! j = orig ! j))"

text \<open>
  The process state when the outer loop of \<open>stratified_split\<close> starts: numpy's generator
  seeded, and three new arrays holding the matrix \<open>M\<close>, namely \<open>self.AM\<close> and its two
  copies.
\<close>

definition split_world :: "('r::zero) matrix \<Rightarrow> int \<Rightarrow> 'r world \<Rightarrow> 'r world" where
  "split_world M seed w =
     w\<lparr>np_random := Some seed,
       cells := (cells w)(next_addr w := M, Suc (next_addr w) := M, Suc (Suc (next_addr w)) := M),
       next_addr := Suc (Suc (Suc (next_addr w)))\<rparr>"

section \<open>Unique values and dictionaries\<close>

lemma set_unique: "set (unique xs) = set xs"
  by (simp add: unique_def)

lemma distinct_unique: "distinct (unique xs)"
  by (simp add: unique_def)

lemma length_unique: "length (unique xs) = card (set xs)"
  using distinct_card [OF distinct_unique, of xs] by (simp add: set_unique)

lemma fold_upd_map_of:
  "fold (\<lambda>(k, v) m. m(k \<mapsto> v)) kvs m = m ++ map_of (rev kvs)"
  by (induction kvs arbitrary: m) (auto simp: map_add_upd_left)

lemma dict_of_map_of: "dict_of kvs = map_of (rev kvs)"
  by (simp add: dict_of_def fold_upd_map_of)

lemma dict_of_distinct:
  assumes "distinct (map fst kvs)"
  shows "dict_of kvs k = Some v \<longleftrightarrow> (k, v) \<in> set kvs"
proof -
  have "distinct (map fst (rev kvs))" using assms by (simp add: rev_map [symmetric])
  then show ?thesis by (simp add: dict_of_map_of)
qed

lemma set_enumerate0: "set (enumerate 0 xs) = {(i, xs ! i) | i. i < length xs}"
  by (auto simp: in_set_enumerate_eq)

lemma back_lookup:
  "dict_of (enumerate 0 xs) i = Some x \<longleftrightarrow> i < length xs \<and> xs ! i = x"
proof -
  have "distinct (map fst (enumerate 0 xs))" by simp
  from dict_of_distinct [OF this] show ?thesis by (auto simp: set_enumerate0)
qed

lemma fwd_lookup:
  assumes "distinct xs"
  shows "dict_of (map (\<lambda>(i, x). (x, i)) (enumerate 0 xs)) x = Some i \<longleftrightarrow> i < length xs \<and> xs ! i = x"
proof -
  have eq: "map fst (map (\<lambda>(i, x). (x, i)) (enumerate 0 xs)) = xs"
    by (simp add: map_idI comp_def case_prod_beta)
  have "distinct (map fst (map (\<lambda>(i, x). (x, i)) (enumerate 0 xs)))"
    unfolding eq using assms .
  from dict_of_distinct [OF this] show ?thesis by (auto simp: set_enumerate0)
qed

section \<open>Adding coordinate entries\<close>

lemma coo_add_length: "length (coo_add e B) = length B"
  by (cases e) (simp add: coo_add_def)

lemma coo_add_row_length:
  "length (coo_add e B ! u) = length (B ! u)"
  by (cases e; cases "fst e < length B") (auto simp: coo_add_def nth_list_update list_update_beyond)

lemma coo_add_cell:
  assumes "fst e < length B" "fst (snd e) < length (B ! fst e)"
    and "u < length B" "j < length (B ! u)"
  shows "coo_add e B ! u ! j =
           (if fst e = u \<and> fst (snd e) = j then B ! u ! j + snd (snd e) else B ! u ! j)"
  using assms by (cases e) (auto simp: coo_add_def nth_list_update)


lemma fold_coo_add:
  assumes "length B = M" "\<forall>row \<in> set B. length row = N"
    and "list_all (\<lambda>e. fst e < M) entries" "list_all (\<lambda>e. fst (snd e) < N) entries"
  shows "length (fold coo_add entries B) = M \<and>
         (\<forall>row \<in> set (fold coo_add entries B). length row = N) \<and>
         (\<forall>u < M. \<forall>j < N. fold coo_add entries B ! u ! j = B ! u ! j + cell_sum u j entries)"
  using assms
proof (induction entries arbitrary: B)
  case Nil
  then show ?case by (simp add: cell_sum_def)
next
  case (Cons e es)
  obtain a b v where e: "e = (a, b, v)" by (cases e) auto
  let ?B = "coo_add e B"
  have a: "a < M" and b: "b < N" using Cons.prems e by auto
  have len: "length ?B = M" using Cons.prems by (simp add: coo_add_length)
  have rows: "\<forall>row \<in> set ?B. length row = N"
  proof
    fix row assume "row \<in> set ?B"
    then obtain k where k: "k < length ?B" "row = ?B ! k" by (auto simp: in_set_conv_nth)
    then have "length row = length (B ! k)" by (simp add: coo_add_row_length)
    moreover have "B ! k \<in> set B" using k len Cons.prems(1) by simp
    ultimately show "length row = N" using Cons.prems(2) by simp
  qed
  have es: "list_all (\<lambda>e. fst e < M) es" "list_all (\<lambda>e. fst (snd e) < N) es"
    using Cons.prems(3,4) by simp_all
  note IH = Cons.IH [OF len rows es]
  have cell: "?B ! u ! j = B ! u ! j + (if a = u \<and> b = j then v else 0)"
    if "u < M" "j < N" for u j
  proof -
    have "B ! u \<in> set B" "B ! a \<in> set B" using that a Cons.prems(1) by auto
    then have "length (B ! u) = N" "length (B ! a) = N" using Cons.prems(2) by auto
    then show ?thesis
      using coo_add_cell [of e B u j] that a b Cons.prems(1) e by auto
  qed
  show ?case
  proof (intro conjI allI impI)
    show "length (fold coo_add (e # es) B) = M" using IH by simp
    show "\<forall>row\<in>set (fold coo_add (e # es) B). length row = N" using IH by simp
    fix u j assume uj: "u < M" "j < N"
    have "fold coo_add (e # es) B ! u ! j = ?B ! u ! j + cell_sum u j es"
      using IH uj by simp
    also have "\<dots> = B ! u ! j + ((if a = u \<and> b = j then v else 0) + cell_sum u j es)"
      by (simp add: cell [OF uj] add.assoc)
    also have "(if a = u \<and> b = j then v else 0) + cell_sum u j es = cell_sum u j (e # es)"
      by (simp add: cell_sum_def e add.commute)
    finally show "fold coo_add (e # es) B ! u ! j = B ! u ! j + cell_sum u j (e # es)" .
  qed
qed




section \<open>The maps built by gen_index\<close>

lemma fwd_back_iff: "fwd_map xs x = Some i \<longleftrightarrow> back_map xs i = Some x"
  by (simp add: fwd_map_def back_map_def fwd_lookup [OF distinct_unique] back_lookup)

lemma back_map_Some:
  "back_map xs i = Some x \<longleftrightarrow> i < card (set xs) \<and> unique xs ! i = x"
  by (simp add: back_map_def back_lookup length_unique)

lemma dom_fwd_map: "dom (fwd_map xs) = set xs"
proof -
  have "x \<in> dom (fwd_map xs) \<longleftrightarrow> x \<in> set (unique xs)" for x
    by (auto simp: dom_def fwd_back_iff back_map_Some in_set_conv_nth length_unique)
  then show ?thesis by (auto simp: set_unique)
qed

lemma ran_fwd_map: "ran (fwd_map xs) = {0..<card (set xs)}"
  by (auto simp: ran_def fwd_back_iff back_map_Some)

lemma dom_back_map: "dom (back_map xs) = {0..<card (set xs)}"
  by (auto simp: dom_def back_map_Some)

lemma ran_back_map: "ran (back_map xs) = set xs"
proof -
  have "ran (back_map xs) = set (unique xs)"
    by (auto simp: ran_def back_map_Some in_set_conv_nth length_unique)
  then show ?thesis by (simp add: set_unique)
qed

lemma inj_on_fwd_map: "inj_on (fwd_map xs) (set xs)"
proof (rule inj_onI)
  fix x y assume "x \<in> set xs" "y \<in> set xs" and eq: "fwd_map xs x = fwd_map xs y"
  then obtain i where i: "fwd_map xs x = Some i" using dom_fwd_map [of xs] by auto
  then have "fwd_map xs y = Some i" using eq by simp
  with i show "x = y" by (simp add: fwd_back_iff)
qed

lemma fwd_map_lt: "fwd_map xs x = Some i \<Longrightarrow> i < card (set xs)"
  by (simp add: fwd_back_iff back_map_Some)

lemma fwd_map_in: "x \<in> set xs \<Longrightarrow> \<exists>i < card (set xs). fwd_map xs x = Some i \<and> back_map xs i = Some x"
proof -
  assume "x \<in> set xs"
  then obtain i where i: "fwd_map xs x = Some i" using dom_fwd_map [of xs] by auto
  then show ?thesis using fwd_map_lt [OF i] by (auto simp: fwd_back_iff)
qed

lemma set_sort_values: "set (sort_values d) = set d"
  by (simp add: sort_values_def)


lemma gen_index_fields:
  "df_sorted (gen_index s) = sort_values (df s)"
  "df (gen_index s) = df s"
  "Nusers (gen_index s) = card (col_user ` set (df s))"
  "Nitems (gen_index s) = card (col_item ` set (df s))"
  "map_users (gen_index s) = fwd_map (map col_user (sort_values (df s)))"
  "map_items (gen_index s) = fwd_map (map col_item (sort_values (df s)))"
  "map_back_users (gen_index s) = back_map (map col_user (sort_values (df s)))"
  "map_back_items (gen_index s) = back_map (map col_item (sort_values (df s)))"
  "AM (gen_index s) = AM s"
  by (simp_all add: gen_index_def Let_def fwd_map_def back_map_def length_unique set_sort_values)

lemma gen_index_row:
  assumes "row \<in> set (df s)"
  shows "\<exists>u i. u < Nusers (gen_index s) \<and> i < Nitems (gen_index s) \<and>
           map_users (gen_index s) (col_user row) = Some u \<and>
           map_back_users (gen_index s) u = Some (col_user row) \<and>
           map_items (gen_index s) (col_item row) = Some i \<and>
           map_back_items (gen_index s) i = Some (col_item row)"
proof -
  let ?us = "map col_user (sort_values (df s))"
  let ?is = "map col_item (sort_values (df s))"
  have "col_user row \<in> set ?us" "col_item row \<in> set ?is"
    using assms by (auto simp: set_sort_values)
  from fwd_map_in [OF this(1)] fwd_map_in [OF this(2)]
  obtain u i where
    "u < card (set ?us)" "fwd_map ?us (col_user row) = Some u"
    "back_map ?us u = Some (col_user row)"
    "i < card (set ?is)" "fwd_map ?is (col_item row) = Some i"
    "back_map ?is i = Some (col_item row)"
    by blast
  then show ?thesis
    by (intro exI [of _ u] exI [of _ i]) (simp add: gen_index_fields set_sort_values)
qed

text \<open>
  Claim C7. For every input table, the maps built by \<open>gen_index\<close> form a bijection on each
  axis: the forward map is defined exactly on the observed identifiers (none dropped, none
  invented), it is injective and its image is exactly \<open>[0, N)\<close>, where \<open>N\<close> is the
  number of distinct identifiers; the backward map is defined exactly on \<open>[0, N)\<close> with
  the observed identifiers as values, and mapping an observed identifier forward and then
  backward returns it.
\<close>

theorem gen_index_bijection:
  fixes s :: "('u::linorder, 'i, 'r) splitter"
  shows
  "Nusers (gen_index s) = card (col_user ` set (df s)) \<and>
   Nitems (gen_index s) = card (col_item ` set (df s)) \<and>
   dom (map_users (gen_index s)) = col_user ` set (df s) \<and>
   dom (map_items (gen_index s)) = col_item ` set (df s) \<and>
   ran (map_users (gen_index s)) = {0..<Nusers (gen_index s)} \<and>
   ran (map_items (gen_index s)) = {0..<Nitems (gen_index s)} \<and>
   inj_on (map_users (gen_index s)) (col_user ` set (df s)) \<and>
   inj_on (map_items (gen_index s)) (col_item ` set (df s)) \<and>
   dom (map_back_users (gen_index s)) = {0..<Nusers (gen_index s)} \<and>
   dom (map_back_items (gen_index s)) = {0..<Nitems (gen_index s)} \<and>
   ran (map_back_users (gen_index s)) = col_user ` set (df s) \<and>
   ran (map_back_items (gen_index s)) = col_item ` set (df s) \<and>
   (\<forall>row \<in> set (df s).
      (\<exists>u < Nusers (gen_index s).
         map_users (gen_index s) (col_user row) = Some u \<and>
         map_back_users (gen_index s) u = Some (col_user row)) \<and>
      (\<exists>i < Nitems (gen_index s).
         map_items (gen_index s) (col_item row) = Some i \<and>
         map_back_items (gen_index s) i = Some (col_item row)))"
proof -
  let ?us = "map col_user (sort_values (df s))"
  let ?is = "map col_item (sort_values (df s))"
  have us: "set ?us = col_user ` set (df s)" and "is": "set ?is = col_item ` set (df s)"
    by (simp_all add: set_sort_values)
  have pairs: "(\<exists>u < card (set ?us). fwd_map ?us (col_user row) = Some u \<and>
                  back_map ?us u = Some (col_user row)) \<and>
               (\<exists>i < card (set ?is). fwd_map ?is (col_item row) = Some i \<and>
                  back_map ?is i = Some (col_item row))"
    if "row \<in> set (df s)" for row
  proof
    have "col_user row \<in> set ?us" using that us by blast
    then show "\<exists>u < card (set ?us). fwd_map ?us (col_user row) = Some u \<and>
                  back_map ?us u = Some (col_user row)" by (rule fwd_map_in)
    have "col_item row \<in> set ?is" using that "is" by blast
    then show "\<exists>i < card (set ?is). fwd_map ?is (col_item row) = Some i \<and>
                  back_map ?is i = Some (col_item row)" by (rule fwd_map_in)
  qed
  show ?thesis
    unfolding gen_index_fields
    using dom_fwd_map [of ?us] dom_fwd_map [of ?is] ran_fwd_map [of ?us] ran_fwd_map [of ?is]
      inj_on_fwd_map [of ?us] inj_on_fwd_map [of ?is] dom_back_map [of ?us] dom_back_map [of ?is]
      ran_back_map [of ?us] ran_back_map [of ?is] pairs
    unfolding us "is" by blast
qed


theorem gen_index_bijection_witness:
  "(2, 1, 4) \<in> set (df (init [(1::nat, 1::nat, 5::int), (1, 2, 3), (2, 1, 4)])) \<and>
   Nusers (gen_index (init [(1::nat, 1::nat, 5::int), (1, 2, 3), (2, 1, 4)])) = 2 \<and>
   (\<exists>u < 2. map_users (gen_index (init [(1::nat, 1::nat, 5::int), (1, 2, 3), (2, 1, 4)])) 2 = Some u \<and>
      map_back_users (gen_index (init [(1::nat, 1::nat, 5::int), (1, 2, 3), (2, 1, 4)])) u = Some 2)"
proof -
  let ?s = "init [(1::nat, 1::nat, 5::int), (1, 2, 3), (2, 1, 4)]"
  note t = gen_index_bijection [of ?s]
  have row: "(2, 1, 4) \<in> set (df ?s)" by (simp add: init_def)
  have "card (col_user ` set (df ?s)) = 2" by (simp add: init_def col_user_def)
  with t have n: "Nusers (gen_index ?s) = 2" by simp
  from t row have "\<exists>u < Nusers (gen_index ?s).
      map_users (gen_index ?s) (col_user (2::nat, 1::nat, 4::int)) = Some u \<and>
      map_back_users (gen_index ?s) u = Some (col_user (2::nat, 1::nat, 4::int))"
    by blast
  then have "\<exists>u < 2. map_users (gen_index ?s) 2 = Some u \<and>
      map_back_users (gen_index ?s) u = Some 2"
    unfolding n by (simp add: col_user_def)
  with row n show ?thesis by blast
qed

section \<open>The affinity matrix\<close>



lemma length_series_map: "length (series_map d xs) = length xs"
  by (simp add: series_map_def)

lemma zip_hashed:
  "zip (map the (series_map f (map a d))) (zip (map the (series_map g (map b d))) (map h d)) =
   map (\<lambda>row. (the (f (a row)), the (g (b row)), h row)) d"
  by (induction d) (auto simp: series_map_def)

lemma gen_index_empty_iff:
  "Nusers (gen_index s) * Nitems (gen_index s) = 0 \<longleftrightarrow> df s = []"
  by (auto simp: gen_index_fields)

lemma hashed_gen_index_range:
  assumes "e \<in> set (hashed (gen_index s))"
  shows "fst e < Nusers (gen_index s) \<and> fst (snd e) < Nitems (gen_index s)"
proof -
  from assms obtain row where row: "row \<in> set (df s)"
    and e: "e = (the (map_users (gen_index s) (col_user row)),
                 the (map_items (gen_index s) (col_item row)), col_rating row)"
    by (auto simp: hashed_def gen_index_fields(1) set_sort_values)
  from gen_index_row [OF row] show ?thesis unfolding e by auto
qed

lemma gen_affinity_matrix_gen_index:
  "gen_affinity_matrix (gen_index s) w =
     (if df s = [] then Inl (ValueError ''cannot convert float NaN to integer'')
      else Inr ((gen_index s)\<lparr>AM := next_addr w\<rparr>,
                w\<lparr>cells := (cells w)(next_addr w := affinity (gen_index s)),
                  next_addr := Suc (next_addr w)\<rparr>))"
proof -
  let ?s = "gen_index s"
  let ?d = "df_sorted ?s"
  have d: "set ?d = set (df s)" by (simp add: gen_index_fields(1) set_sort_values)
  have someU: "None \<notin> set (series_map (map_users ?s) (map col_user ?d))"
    using gen_index_row [of _ s] d by (fastforce simp: series_map_def)
  have someI: "None \<notin> set (series_map (map_items ?s) (map col_item ?d))"
    using gen_index_row [of _ s] d by (fastforce simp: series_map_def)
  have coo: "coo_matrix (map col_rating ?d) (series_map (map_users ?s) (map col_user ?d))
               (series_map (map_items ?s) (map col_item ?d)) (Nusers ?s, Nitems ?s)
             = coo_toarray (Nusers ?s, Nitems ?s) (hashed ?s)"
    unfolding coo_matrix_def using someU someI
    by (simp only: if_False simp_thms zip_hashed hashed_def)
  have "coo_toarray (Nusers ?s, Nitems ?s) (hashed ?s) = Inr (affinity ?s)"
    using hashed_gen_index_range [of _ s]
    by (simp add: coo_toarray_def affinity_def list_all_iff)
  with coo show ?thesis
    using gen_index_empty_iff [of s]
    by (simp add: gen_affinity_matrix_def Let_def new_array_def length_series_map
          del: mult_eq_0_iff)
qed


lemma zip_concat:
  "\<forall>x \<in> set xs. length (f x) = length (g x) \<Longrightarrow>
   zip (concat (map f xs)) (concat (map g xs)) = concat (map (\<lambda>x. zip (f x) (g x)) xs)"
  by (induction xs) auto

lemma map_back_sparse_eq:
  "map_back_sparse s X =
     concat (map (\<lambda>i. map (\<lambda>j. (map_back_users s i, map_back_items s j, X ! i ! j))
                        (nonzero_idx (X ! i))) [0..<length X])"
proof -
  let ?m = "length X"
  let ?items = "map (\<lambda>i. nonzero_idx (X ! i)) [0..<?m]"
  have r: "map (\<lambda>i. map (\<lambda>j. X ! i ! j) (?items ! i)) [0..<?m] =
           map (\<lambda>i. map (\<lambda>j. X ! i ! j) (nonzero_idx (X ! i))) [0..<?m]"
    by (rule map_cong) auto
  have u: "map (\<lambda>i. replicate (length (?items ! i)) i) [0..<?m] =
           map (\<lambda>i. replicate (length (nonzero_idx (X ! i))) i) [0..<?m]"
    by (rule map_cong) auto
  have z1: "zip (concat (map (\<lambda>i. map (map_back_items s) (nonzero_idx (X ! i))) [0..<?m]))
                (concat (map (\<lambda>i. map (\<lambda>j. X ! i ! j) (nonzero_idx (X ! i))) [0..<?m])) =
            concat (map (\<lambda>i. map (\<lambda>j. (map_back_items s j, X ! i ! j)) (nonzero_idx (X ! i)))
                      [0..<?m])"
    by (subst zip_concat) (simp_all add: zip_map_map zip_same_conv_map comp_def)
  have z2: "zip (concat (map (\<lambda>i. map (map_back_users s) (replicate (length (nonzero_idx (X ! i))) i))
                          [0..<?m]))
                (concat (map (\<lambda>i. map (\<lambda>j. (map_back_items s j, X ! i ! j)) (nonzero_idx (X ! i)))
                      [0..<?m])) =
            concat (map (\<lambda>i. map (\<lambda>j. (map_back_users s i, map_back_items s j, X ! i ! j))
                        (nonzero_idx (X ! i))) [0..<?m])"
    by (subst zip_concat) (simp_all add: zip_replicate1 map_replicate comp_def)
  have "map_back_sparse s X =
          zip (map (map_back_users s)
                 (concat (map (\<lambda>i. replicate (length (?items ! i)) i) [0..<?m])))
              (zip (map (map_back_items s) (concat ?items))
                   (concat (map (\<lambda>i. map (\<lambda>j. X ! i ! j) (?items ! i)) [0..<?m])))"
    by (simp add: map_back_sparse_def Let_def series_map_def)
  also have "\<dots> =
          zip (map (map_back_users s)
                 (concat (map (\<lambda>i. replicate (length (nonzero_idx (X ! i))) i) [0..<?m])))
              (zip (map (map_back_items s) (concat ?items))
                   (concat (map (\<lambda>i. map (\<lambda>j. X ! i ! j) (nonzero_idx (X ! i))) [0..<?m])))"
    by (simp only: r u)
  also have "\<dots> =
          zip (concat (map (\<lambda>i. map (map_back_users s) (replicate (length (nonzero_idx (X ! i))) i))
                          [0..<?m]))
              (zip (concat (map (\<lambda>i. map (map_back_items s) (nonzero_idx (X ! i))) [0..<?m]))
                   (concat (map (\<lambda>i. map (\<lambda>j. X ! i ! j) (nonzero_idx (X ! i))) [0..<?m])))"
    by (simp only: map_concat map_map comp_def)
  finally show ?thesis by (simp only: z1 z2)
qed

section \<open>Mapping back\<close>

lemma set_nonzero_idx: "set (nonzero_idx row) = {j. j < length row \<and> row ! j \<noteq> 0}"
  by (auto simp: nonzero_idx_def)

lemma distinct_nonzero_idx: "distinct (nonzero_idx row)"
  by (simp add: nonzero_idx_def)

lemma nnz_nonzero_idx: "nnz row = length (nonzero_idx row)"
proof -
  have "length (nonzero_idx row) = card (set (nonzero_idx row))"
    by (simp add: distinct_card distinct_nonzero_idx)
  then show ?thesis
    by (simp add: nnz_def set_nonzero_idx length_filter_conv_card)
qed

lemma set_map_back_sparse:
  "set (map_back_sparse s X) =
     {(map_back_users s u, map_back_items s j, X ! u ! j) | u j.
        u < length X \<and> j < length (X ! u) \<and> X ! u ! j \<noteq> 0}"
  by (auto simp: map_back_sparse_eq set_nonzero_idx) blast

lemma length_map_back_sparse: "length (map_back_sparse s X) = sum_list (map nnz X)"
proof -
  have "map (\<lambda>i. nnz (X ! i)) [0..<length X] = map nnz X"
    by (rule nth_equalityI) auto
  then show ?thesis
    by (simp add: map_back_sparse_eq length_concat comp_def nnz_nonzero_idx [symmetric])
qed

text \<open>
  Claim C4, as the code has it. \<open>map_back_sparse\<close> has no failure: it returns one row
  per non-zero cell of the matrix, and a non-zero cell whose row or column index has no
  entry in the backward map gives a row in which that identifier is missing (NaN), with
  the rating and the other identifier kept. No lookup error is raised.
\<close>

theorem map_back_sparse_missing_entry:
  assumes "u < length X" "j < length (X ! u)" "X ! u ! j \<noteq> 0"
  shows "length (map_back_sparse s X) = sum_list (map nnz X) \<and>
         (map_back_users s u, map_back_items s j, X ! u ! j) \<in> set (map_back_sparse s X) \<and>
         (map_back_users s u = None \<longrightarrow>
            (None, map_back_items s j, X ! u ! j) \<in> set (map_back_sparse s X)) \<and>
         (map_back_items s j = None \<longrightarrow>
            (map_back_users s u, None, X ! u ! j) \<in> set (map_back_sparse s X))"
proof -
  have "(map_back_users s u, map_back_items s j, X ! u ! j) \<in> set (map_back_sparse s X)"
    unfolding set_map_back_sparse using assms by blast
  then show ?thesis by (auto simp: length_map_back_sparse)
qed

text \<open>
  Claim C4 as stated (a missing backward-map entry fails with a lookup error) does not
  hold: with the maps of a one-user table and a matrix of two rows, the second row is
  returned with a missing user identifier.
\<close>

theorem map_back_sparse_lookup_counterexample:
  "map_back_sparse (gen_index (init [(1::nat, 1::nat, 5::int)])) [[5], [4]] =
     [(Some 1, Some 1, 5), (None, Some 1, 4)]"
  by (simp add: map_back_sparse_def gen_index_def init_def Let_def sort_values_def col_user_def col_item_def unique_def dict_of_def series_map_def nonzero_idx_def enumerate_eq_zip)

theorem map_back_sparse_missing_entry_witness:
  "1 < length [[5::int], [4]] \<and> 0 < length ([[5::int], [4]] ! 1) \<and> [[5::int], [4]] ! 1 ! 0 \<noteq> 0 \<and>
   map_back_users (gen_index (init [(1::nat, 1::nat, 5::int)])) 1 = None \<and>
   (None, Some 1, 4) \<in> set (map_back_sparse (gen_index (init [(1::nat, 1::nat, 5::int)])) [[5], [4]])"
proof -
  let ?s = "gen_index (init [(1::nat, 1::nat, 5::int)])"
  let ?X = "[[5::int], [4]]"
  have h: "1 < length ?X" "0 < length (?X ! 1)" "?X ! 1 ! 0 \<noteq> 0" by simp_all
  have n: "map_back_users ?s 1 = None" "map_back_items ?s 0 = Some 1"
    by (simp_all add: gen_index_def init_def Let_def sort_values_def col_user_def col_item_def
        unique_def dict_of_def enumerate_eq_zip)
  from map_back_sparse_missing_entry [OF h, of ?s] n
  have "(None, Some 1, 4) \<in> set (map_back_sparse ?s ?X)" by simp
  with h n show ?thesis by simp
qed

section \<open>Round trip\<close>

lemma affinity_gen_index_shape:
  fixes s :: "('u::linorder, 'i, 'c::comm_monoid_add) splitter"
  shows
  "length (affinity (gen_index s)) = Nusers (gen_index s)"
  "u < Nusers (gen_index s) \<Longrightarrow> length (affinity (gen_index s) ! u) = Nitems (gen_index s)"
  "u < Nusers (gen_index s) \<Longrightarrow> j < Nitems (gen_index s) \<Longrightarrow>
     affinity (gen_index s) ! u ! j = cell_sum u j (hashed (gen_index s))"
proof -
  let ?s = "gen_index s"
  have r1: "list_all (\<lambda>e. fst e < Nusers ?s) (hashed ?s)"
    and r2: "list_all (\<lambda>e. fst (snd e) < Nitems ?s) (hashed ?s)"
    using hashed_gen_index_range [of _ s] by (simp_all add: list_all_iff)
  have z: "length (zeros (Nusers ?s) (Nitems ?s) :: 'c matrix) = Nusers ?s"
    "\<forall>row \<in> set (zeros (Nusers ?s) (Nitems ?s) :: 'c matrix). length row = Nitems ?s"
    by (simp_all add: zeros_def)
  note f = fold_coo_add [OF z r1 r2, folded affinity_def]
  show "length (affinity ?s) = Nusers ?s" using f by simp
  show "length (affinity ?s ! u) = Nitems ?s" if "u < Nusers ?s"
    using f that by (metis nth_mem)
  show "affinity ?s ! u ! j = cell_sum u j (hashed ?s)" if "u < Nusers ?s" "j < Nitems ?s"
    using f that by (simp add: zeros_def)
qed













section \<open>The sampling loop\<close>

lemma choice_Inr:
  "ix \<noteq> [] \<Longrightarrow> \<exists>x g'. choice g ix = Inr (x, g') \<and> x \<in> set ix"
  by (simp add: choice_def randbelow_def)

lemma choice_Inl:
  "choice g ix = Inl e \<Longrightarrow> ix = [] \<and> e = IndexError ''Cannot choose from an empty sequence''"
  by (auto simp: choice_def randbelow_def split: if_splits)

lemma choice_mem: "choice g ix = Inr (x, g') \<Longrightarrow> x \<in> set ix"
  by (auto simp: choice_def randbelow_def split: if_splits)

lemma sample_Inr:
  "sample n ix acc sub g = Inr (ix', acc', sub', g') \<Longrightarrow>
     mset ix' + mset acc' = mset ix + mset acc \<and> length acc' = length acc + n \<and>
     (sub' = None \<longleftrightarrow> sub = None \<and> n = 0)"
proof (induction n arbitrary: ix acc sub g)
  case 0
  then show ?case by simp
next
  case (Suc n)
  from Suc.prems obtain x g1 where c: "choice g ix = Inr (x, g1)"
    by (auto split: sum.splits)
  then have x: "x \<in> set ix" by (rule choice_mem)
  then have r: "list_remove ix x = Inr (remove1 x ix)" by (simp add: list_remove_def)
  from Suc.prems c r have
    "sample n (remove1 x ix) (acc @ [x]) (Some x) g1 = Inr (ix', acc', sub', g')" by simp
  from Suc.IH [OF this] x show ?case by simp
qed

lemma sample_total:
  "n \<le> length ix \<Longrightarrow> \<exists>r. sample n ix acc sub g = Inr r"
proof (induction n arbitrary: ix acc sub g)
  case 0
  then show ?case by simp
next
  case (Suc n)
  then have "ix \<noteq> []" by auto
  from choice_Inr [OF this, of g] obtain x g1 where
    c: "choice g ix = Inr (x, g1)" and x: "x \<in> set ix" by blast
  have r: "list_remove ix x = Inr (remove1 x ix)" using x by (simp add: list_remove_def)
  have "n \<le> length (remove1 x ix)" using Suc.prems x by (simp add: length_remove1)
  from Suc.IH [OF this, of "acc @ [x]" "Some x" g1] show ?case by (simp add: c r)
qed

lemma sample_Inl:
  "sample n ix acc sub g = Inl e \<Longrightarrow>
     length ix < n \<and> e = IndexError ''Cannot choose from an empty sequence''"
proof (induction n arbitrary: ix acc sub g)
  case 0
  then show ?case by simp
next
  case (Suc n)
  show ?case
  proof (cases "ix = []")
    case True
    with Suc.prems show ?thesis by (simp add: choice_def)
  next
    case False
    from choice_Inr [OF this, of g] obtain x g1 where
      c: "choice g ix = Inr (x, g1)" and x: "x \<in> set ix" by blast
    have r: "list_remove ix x = Inr (remove1 x ix)" using x by (simp add: list_remove_def)
    from Suc.prems have "sample n (remove1 x ix) (acc @ [x]) (Some x) g1 = Inl e"
      by (simp add: c r)
    from Suc.IH [OF this] have "length (remove1 x ix) < n"
      and e: "e = IndexError ''Cannot choose from an empty sequence''" by simp_all
    moreover have "length (remove1 x ix) = length ix - 1" using x by (simp add: length_remove1)
    moreover have "0 < length ix" using False by simp
    ultimately show ?thesis by linarith
  qed
qed

lemma sample_percent:
  assumes "0 \<le> tc" and "tc \<le> 100"
  shows "\<exists>r. sample (nat ((int (length idx) * tc) div 100)) idx idx_tst sub_el g = Inr r"
proof (rule sample_total)
  have "int (length idx) * tc \<le> int (length idx) * 100"
    using assms(2) by (simp add: mult_left_mono)
  then have "(int (length idx) * tc) div 100 \<le> (int (length idx) * 100) div 100"
    by (rule zdiv_mono1) simp
  then show "nat ((int (length idx) * tc) div 100) \<le> length idx" by simp
qed

section \<open>Zeroing the cells of one row\<close>

lemma length_zero_cols: "length (zero_cols js row) = length row"
  unfolding zero_cols_def by (induction js arbitrary: row) auto

lemma nth_zero_cols:
  "j < length row \<Longrightarrow> zero_cols js row ! j = (if j \<in> set js then 0 else row ! j)"
  unfolding zero_cols_def
  by (induction js arbitrary: row) (auto simp: nth_list_update)

lemma set_nonzero_idx_zero_cols:
  "set (nonzero_idx (zero_cols js row)) = set (nonzero_idx row) - set js"
  by (auto simp: set_nonzero_idx length_zero_cols nth_zero_cols split: if_splits)

lemma nnz_card: "nnz row = card (set (nonzero_idx row))"
  by (simp add: nnz_nonzero_idx distinct_card distinct_nonzero_idx)

lemma split_of_mset:
  assumes "mset ix + mset ix_tst = mset (nonzero_idx row)"
  shows "row_split row (zero_cols ix_tst row) (zero_cols ix row)"
    and "nnz (zero_cols ix row) = length ix_tst"
    and "nnz (zero_cols ix_tst row) = length ix"
proof -
  from assms have m: "mset (ix @ ix_tst) = mset (nonzero_idx row)" by simp
  then have d: "distinct (ix @ ix_tst)"
    using distinct_nonzero_idx mset_eq_imp_distinct_iff by blast
  from m have s: "set ix \<union> set ix_tst = set (nonzero_idx row)"
    by (metis mset_eq_setD set_append)
  from d have dj: "set ix \<inter> set ix_tst = {}" by auto
  show "row_split row (zero_cols ix_tst row) (zero_cols ix row)"
    unfolding row_split_def length_zero_cols
  proof (intro conjI allI impI refl)
    fix j assume j: "j < length row"
    show "(zero_cols ix_tst row ! j = row ! j \<and> zero_cols ix row ! j = 0) \<or>
          (zero_cols ix_tst row ! j = 0 \<and> zero_cols ix row ! j = row ! j)"
    proof (cases "row ! j = 0")
      case True
      then show ?thesis using j by (simp add: nth_zero_cols)
    next
      case False
      then have "j \<in> set ix \<union> set ix_tst" using j s by (simp add: set_nonzero_idx)
      then show ?thesis using j dj by (auto simp: nth_zero_cols)
    qed
  qed
  have "set (nonzero_idx row) - set ix = set ix_tst" using s dj by auto
  then show "nnz (zero_cols ix row) = length ix_tst"
    using d by (simp add: nnz_card set_nonzero_idx_zero_cols distinct_card)
  have "set (nonzero_idx row) - set ix_tst = set ix" using s dj by auto
  then show "nnz (zero_cols ix_tst row) = length ix"
    using d by (simp add: nnz_card set_nonzero_idx_zero_cols distinct_card)
qed

lemma row_split_nonzero:
  assumes "row_split orig tr ts"
  shows "set (nonzero_idx tr) \<inter> set (nonzero_idx ts) = {}"
    and "set (nonzero_idx tr) \<union> set (nonzero_idx ts) = set (nonzero_idx orig)"
    and "nnz tr + nnz ts = nnz orig"
proof -
  show i: "set (nonzero_idx tr) \<inter> set (nonzero_idx ts) = {}"
    using assms unfolding row_split_def set_nonzero_idx by auto
  show u: "set (nonzero_idx tr) \<union> set (nonzero_idx ts) = set (nonzero_idx orig)"
    using assms unfolding row_split_def set_nonzero_idx by auto
  have "card (set (nonzero_idx tr) \<union> set (nonzero_idx ts)) =
        card (set (nonzero_idx tr)) + card (set (nonzero_idx ts))"
    by (rule card_Un_disjoint) (simp_all add: i)
  then show "nnz tr + nnz ts = nnz orig" by (simp add: nnz_card u)
qed

section \<open>One iteration of the outer loop\<close>

lemma split_row_unfold:
  assumes s: "sample (nat (tst ! u)) (nonzero_idx (cells w xtr ! u)) [] (loc_sub_el loc)
                (py_random w) = Inr (ix, ix_tst, sub, g)"
    and ne: "xtr \<noteq> xtst"
  shows "split_row xtr xtst rated tst u (w, loc) =
     (let w' = w\<lparr>py_random := g,
                  cells := (cells w)(xtr := (cells w xtr)[u := zero_cols ix_tst (cells w xtr ! u)],
                                     xtst := (cells w xtst)[u := zero_cols ix (cells w xtst ! u)])\<rparr>
      in if nnz (cells w' xtr ! u) + nnz (cells w' xtst ! u) = rated ! u
         then Inr (w', \<lparr>loc_idx = Some ix, loc_sub_el = sub, loc_idx_tst = Some ix_tst\<rparr>)
         else Inl AssertionError)"
  using ne
  by (simp add: split_row_def s Let_def assign_zero_def set_zero_def zero_cols_def fun_upd_twist)

lemma split_row_Inr:
  assumes run: "split_row xtr xtst rated tst u (w, loc) = Inr (w', loc')"
    and ne: "xtr \<noteq> xtst"
    and rows: "cells w xtr ! u = row" "cells w xtst ! u = row"
  shows "\<exists>ix ix_tst. mset ix + mset ix_tst = mset (nonzero_idx row) \<and>
           length ix_tst = nat (tst ! u) \<and>
           cells w' = (cells w)(xtr := (cells w xtr)[u := zero_cols ix_tst row],
                                xtst := (cells w xtst)[u := zero_cols ix row]) \<and>
           next_addr w' = next_addr w \<and> np_random w' = np_random w \<and>
           (loc_sub_el loc' = None \<longleftrightarrow> loc_sub_el loc = None \<and> nat (tst ! u) = 0) \<and>
           loc_idx loc' \<noteq> None \<and> loc_idx_tst loc' \<noteq> None"
proof -
  obtain ix ix_tst sub g where s:
    "sample (nat (tst ! u)) (nonzero_idx (cells w xtr ! u)) [] (loc_sub_el loc) (py_random w)
       = Inr (ix, ix_tst, sub, g)"
    using run by (auto simp: split_row_def split: sum.splits)
  from sample_Inr [OF s] rows have m:
    "mset ix + mset ix_tst = mset (nonzero_idx row)" "length ix_tst = nat (tst ! u)"
    "sub = None \<longleftrightarrow> loc_sub_el loc = None \<and> nat (tst ! u) = 0"
    by simp_all
  from run have
    "w' = w\<lparr>py_random := g,
            cells := (cells w)(xtr := (cells w xtr)[u := zero_cols ix_tst row],
                               xtst := (cells w xtst)[u := zero_cols ix row])\<rparr>"
    "loc' = \<lparr>loc_idx = Some ix, loc_sub_el = sub, loc_idx_tst = Some ix_tst\<rparr>"
    unfolding split_row_unfold [OF s ne] rows by (simp_all add: Let_def split: if_splits)
  with m show ?thesis by (intro exI [of _ ix] exI [of _ ix_tst]) simp
qed

lemma split_row_total:
  assumes ne: "xtr \<noteq> xtst"
    and rows: "cells w xtr ! u = row" "cells w xtst ! u = row"
    and len: "u < length (cells w xtr)" "u < length (cells w xtst)"
    and rated: "rated ! u = nnz row"
    and le: "nat (tst ! u) \<le> nnz row"
  shows "\<exists>st'. split_row xtr xtst rated tst u (w, loc) = Inr st'"
proof -
  have "nat (tst ! u) \<le> length (nonzero_idx (cells w xtr ! u))"
    using le rows by (simp add: nnz_nonzero_idx)
  from sample_total [OF this] obtain ix ix_tst sub g where s:
    "sample (nat (tst ! u)) (nonzero_idx (cells w xtr ! u)) [] (loc_sub_el loc) (py_random w)
       = Inr (ix, ix_tst, sub, g)"
    by (metis prod_cases4)
  from sample_Inr [OF s] rows have m: "mset ix + mset ix_tst = mset (nonzero_idx row)"
    by simp
  have "length ix + length ix_tst = length (nonzero_idx row)"
    using arg_cong [OF m, of size] by simp
  then have "nnz (zero_cols ix_tst row) + nnz (zero_cols ix row) = rated ! u"
    using split_of_mset(2,3) [OF m] rated by (simp add: nnz_nonzero_idx)
  then show ?thesis
    unfolding split_row_unfold [OF s ne] rows using ne len by (simp add: Let_def)
qed


lemma split_row_effect:
  assumes run: "split_row xtr xtst rated tst u (w, loc) = Inr (w', loc')"
    and ne: "xtr \<noteq> xtst"
    and rows: "cells w xtr ! u = row" "cells w xtst ! u = row"
    and len: "u < length (cells w xtr)" "u < length (cells w xtst)"
  shows "length (cells w' xtr) = length (cells w xtr)"
    and "length (cells w' xtst) = length (cells w xtst)"
    and "row_split row (cells w' xtr ! u) (cells w' xtst ! u)"
    and "nnz (cells w' xtst ! u) = nat (tst ! u)"
    and "\<And>v. v \<noteq> u \<Longrightarrow> cells w' xtr ! v = cells w xtr ! v \<and> cells w' xtst ! v = cells w xtst ! v"
    and "\<And>a. a \<noteq> xtr \<Longrightarrow> a \<noteq> xtst \<Longrightarrow> cells w' a = cells w a"
    and "next_addr w' = next_addr w" and "np_random w' = np_random w"
    and "loc_sub_el loc' = None \<longleftrightarrow> loc_sub_el loc = None \<and> nat (tst ! u) = 0"
    and "loc_idx loc' \<noteq> None" and "loc_idx_tst loc' \<noteq> None"
proof -
  from split_row_Inr [OF run ne rows] obtain ix ix_tst where
    m: "mset ix + mset ix_tst = mset (nonzero_idx row)" and l: "length ix_tst = nat (tst ! u)"
    and c: "cells w' = (cells w)(xtr := (cells w xtr)[u := zero_cols ix_tst row],
                                 xtst := (cells w xtst)[u := zero_cols ix row])"
    and r: "next_addr w' = next_addr w" "np_random w' = np_random w"
      "loc_sub_el loc' = None \<longleftrightarrow> loc_sub_el loc = None \<and> nat (tst ! u) = 0"
      "loc_idx loc' \<noteq> None" "loc_idx_tst loc' \<noteq> None"
    by (elim exE conjE) (rule that, assumption+)
  show "length (cells w' xtr) = length (cells w xtr)"
    "length (cells w' xtst) = length (cells w xtst)"
    using ne by (simp_all add: c)
  have tr: "cells w' xtr ! u = zero_cols ix_tst row" and ts: "cells w' xtst ! u = zero_cols ix row"
    using ne len by (simp_all add: c)
  show "row_split row (cells w' xtr ! u) (cells w' xtst ! u)"
    unfolding tr ts by (rule split_of_mset(1) [OF m])
  show "nnz (cells w' xtst ! u) = nat (tst ! u)"
    unfolding ts using split_of_mset(2) [OF m] l by simp
  show "cells w' xtr ! v = cells w xtr ! v \<and> cells w' xtst ! v = cells w xtst ! v"
    if "v \<noteq> u" for v
    using ne that by (simp add: c)
  show "cells w' a = cells w a" if "a \<noteq> xtr" "a \<noteq> xtst" for a
    using that by (simp add: c)
  show "next_addr w' = next_addr w" "np_random w' = np_random w"
    "loc_sub_el loc' = None \<longleftrightarrow> loc_sub_el loc = None \<and> nat (tst ! u) = 0"
    "loc_idx loc' \<noteq> None" "loc_idx_tst loc' \<noteq> None"
    by (rule r)+
qed

section \<open>The outer loop\<close>

lemma split_loop_Inr:
  assumes run: "split_loop xtr xtst rated tst us (w, loc) = Inr (w', loc')"
    and ne: "xtr \<noteq> xtst" and dist: "distinct us"
    and same: "\<forall>u \<in> set us. cells w xtr ! u = M ! u \<and> cells w xtst ! u = M ! u"
    and len: "\<forall>u \<in> set us. u < length (cells w xtr) \<and> u < length (cells w xtst)"
  shows "length (cells w' xtr) = length (cells w xtr) \<and>
         length (cells w' xtst) = length (cells w xtst) \<and>
         (\<forall>u \<in> set us. row_split (M ! u) (cells w' xtr ! u) (cells w' xtst ! u) \<and>
                        nnz (cells w' xtst ! u) = nat (tst ! u)) \<and>
         (\<forall>v. v \<notin> set us \<longrightarrow>
              cells w' xtr ! v = cells w xtr ! v \<and> cells w' xtst ! v = cells w xtst ! v) \<and>
         (\<forall>a. a \<noteq> xtr \<longrightarrow> a \<noteq> xtst \<longrightarrow> cells w' a = cells w a) \<and>
         next_addr w' = next_addr w \<and> np_random w' = np_random w \<and>
         (loc_sub_el loc' = None \<longleftrightarrow>
            loc_sub_el loc = None \<and> (\<forall>u \<in> set us. nat (tst ! u) = 0)) \<and>
         (us \<noteq> [] \<longrightarrow> loc_idx loc' \<noteq> None \<and> loc_idx_tst loc' \<noteq> None) \<and>
         (us = [] \<longrightarrow> loc' = loc)"
  using assms
proof (induction us arbitrary: w loc)
  case Nil
  then show ?case by simp
next
  case (Cons u us)
  from Cons.prems(1) obtain w1 loc1 where
    row: "split_row xtr xtst rated tst u (w, loc) = Inr (w1, loc1)"
    and rest: "split_loop xtr xtst rated tst us (w1, loc1) = Inr (w', loc')"
    by (auto split: sum.splits)
  have rows: "cells w xtr ! u = M ! u" "cells w xtst ! u = M ! u"
    and lenu: "u < length (cells w xtr)" "u < length (cells w xtst)"
    using Cons.prems(4,5) by simp_all
  note e = split_row_effect [OF row ne rows lenu]
  have u: "u \<notin> set us" and d: "distinct us" using Cons.prems(3) by simp_all
  have same1: "\<forall>v \<in> set us. cells w1 xtr ! v = M ! v \<and> cells w1 xtst ! v = M ! v"
  proof
    fix v assume v: "v \<in> set us"
    then have "v \<noteq> u" using u by auto
    from e(5) [OF this] Cons.prems(4) v
    show "cells w1 xtr ! v = M ! v \<and> cells w1 xtst ! v = M ! v" by simp
  qed
  have len1: "\<forall>v \<in> set us. v < length (cells w1 xtr) \<and> v < length (cells w1 xtst)"
    using Cons.prems(5) e(1,2) by simp
  note IH = Cons.IH [OF rest ne d same1 len1]
  have keep: "cells w' xtr ! u = cells w1 xtr ! u" "cells w' xtst ! u = cells w1 xtst ! u"
    using IH u by simp_all
  show ?case
  proof (intro conjI ballI allI impI)
    show "length (cells w' xtr) = length (cells w xtr)" using IH e(1) by simp
    show "length (cells w' xtst) = length (cells w xtst)" using IH e(2) by simp
    show "row_split (M ! v) (cells w' xtr ! v) (cells w' xtst ! v)" if "v \<in> set (u # us)" for v
      using that IH e(3) keep by auto
    show "nnz (cells w' xtst ! v) = nat (tst ! v)" if "v \<in> set (u # us)" for v
      using that IH e(4) keep by auto
    show "cells w' xtr ! v = cells w xtr ! v" if "v \<notin> set (u # us)" for v
      using that IH e(5) by simp
    show "cells w' xtst ! v = cells w xtst ! v" if "v \<notin> set (u # us)" for v
      using that IH e(5) by simp
    show "cells w' a = cells w a" if "a \<noteq> xtr" "a \<noteq> xtst" for a
      using that IH e(6) by simp
    show "next_addr w' = next_addr w" using IH e(7) by simp
    show "np_random w' = np_random w" using IH e(8) by simp
    show "loc_sub_el loc' = None \<longleftrightarrow>
            loc_sub_el loc = None \<and> (\<forall>v \<in> set (u # us). nat (tst ! v) = 0)"
      using IH e(9) by auto
    show "loc_idx loc' \<noteq> None" using IH e(10) by (cases "us = []") auto
    show "loc_idx_tst loc' \<noteq> None" using IH e(11) by (cases "us = []") auto
  qed simp
qed

lemma split_loop_total:
  assumes ne: "xtr \<noteq> xtst" and dist: "distinct us"
    and same: "\<forall>u \<in> set us. cells w xtr ! u = M ! u \<and> cells w xtst ! u = M ! u"
    and len: "\<forall>u \<in> set us. u < length (cells w xtr) \<and> u < length (cells w xtst)"
    and rated: "\<forall>u \<in> set us. rated ! u = nnz (M ! u)"
    and le: "\<forall>u \<in> set us. nat (tst ! u) \<le> nnz (M ! u)"
  shows "\<exists>st'. split_loop xtr xtst rated tst us (w, loc) = Inr st'"
  using assms
proof (induction us arbitrary: w loc)
  case Nil
  then show ?case by simp
next
  case (Cons u us)
  have rows: "cells w xtr ! u = M ! u" "cells w xtst ! u = M ! u"
    and lenu: "u < length (cells w xtr)" "u < length (cells w xtst)"
    using Cons.prems(3,4) by simp_all
  have "rated ! u = nnz (M ! u)" "nat (tst ! u) \<le> nnz (M ! u)"
    using Cons.prems(5,6) by simp_all
  from split_row_total [OF ne rows lenu this, of loc] obtain w1 loc1 where
    row: "split_row xtr xtst rated tst u (w, loc) = Inr (w1, loc1)" by fastforce
  note e = split_row_effect [OF row ne rows lenu]
  have u: "u \<notin> set us" and d: "distinct us" using Cons.prems(2) by simp_all
  have same1: "\<forall>v \<in> set us. cells w1 xtr ! v = M ! v \<and> cells w1 xtst ! v = M ! v"
  proof
    fix v assume v: "v \<in> set us"
    then have "v \<noteq> u" using u by auto
    from e(5) [OF this] Cons.prems(3) v
    show "cells w1 xtr ! v = M ! v \<and> cells w1 xtst ! v = M ! v" by simp
  qed
  have len1: "\<forall>v \<in> set us. v < length (cells w1 xtr) \<and> v < length (cells w1 xtst)"
    using Cons.prems(4) e(1,2) by simp
  have "\<exists>st'. split_loop xtr xtst rated tst us (w1, loc1) = Inr st'"
    using Cons.prems(5,6) by (intro Cons.IH [OF ne d same1 len1]) simp_all
  then show ?case by (simp add: row)
qed

lemma split_loop_Inl:
  "split_loop xtr xtst rated tst us st = Inl e \<Longrightarrow>
     e = IndexError ''Cannot choose from an empty sequence'' \<or> e = AssertionError"
proof (induction us arbitrary: st)
  case Nil
  then show ?case by simp
next
  case (Cons u us)
  show ?case
  proof (cases "split_row xtr xtst rated tst u st")
    case (Inl e')
    with Cons.prems have "e' = e" by simp
    with Inl show ?thesis
      by (cases st) (auto simp: split_row_def Let_def split: sum.splits if_splits dest: sample_Inl)
  next
    case (Inr st')
    with Cons.prems Cons.IH [of st'] show ?thesis by simp
  qed
qed

section \<open>The whole split\<close>

lemma stratified_split_unfold:
  assumes seed: "0 \<le> seed" "seed < 2 ^ 32" and ne: "df s \<noteq> []"
  shows "stratified_split s ratio seed w =
     (case split_loop (Suc (next_addr w)) (Suc (Suc (next_addr w)))
             (map nnz (affinity (gen_index s)))
             (map (\<lambda>r. (int r * test_cut ratio) div 100) (map nnz (affinity (gen_index s))))
             [0..<Nusers (gen_index s)]
             (split_world (affinity (gen_index s)) seed w, unbound) of
        Inl e \<Rightarrow> Inl e
      | Inr (w4, loc) \<Rightarrow>
          (case del_locals loc of
             Inl e \<Rightarrow> Inl e
           | Inr _ \<Rightarrow>
               Inr (\<lparr>Xtr = Suc (next_addr w), Xtst = Suc (Suc (next_addr w)),
                      train_df = map_back_sparse ((gen_index s)\<lparr>AM := next_addr w\<rparr>)
                                   (cells w4 (Suc (next_addr w))),
                      test_df = map_back_sparse ((gen_index s)\<lparr>AM := next_addr w\<rparr>)
                                   (cells w4 (Suc (Suc (next_addr w)))),
                      maps = (map_back_users (gen_index s), map_back_items (gen_index s))\<rparr>,
                    (gen_index s)\<lparr>AM := next_addr w\<rparr>, w4)))"
  using seed ne
  by (simp add: stratified_split_def np_random_seed_def gen_affinity_matrix_gen_index Let_def
      ndarray_copy_def new_array_def split_world_def fun_upd_twist comp_def
      cong: sum.case_cong)

lemma stratified_split_early:
  "\<not> (0 \<le> seed \<and> seed < 2 ^ 32) \<Longrightarrow>
     stratified_split s ratio seed w = Inl (ValueError ''Seed must be between 0 and 2**32 - 1'')"
  "0 \<le> seed \<Longrightarrow> seed < 2 ^ 32 \<Longrightarrow> df s = [] \<Longrightarrow>
     stratified_split s ratio seed w = Inl (ValueError ''cannot convert float NaN to integer'')"
  by (auto simp: stratified_split_def np_random_seed_def gen_affinity_matrix_gen_index Let_def)


lemma split_world_facts:
  "cells (split_world M seed w) (next_addr w) = M"
  "cells (split_world M seed w) (Suc (next_addr w)) = M"
  "cells (split_world M seed w) (Suc (Suc (next_addr w))) = M"
  "a < next_addr w \<Longrightarrow> cells (split_world M seed w) a = cells w a"
  "next_addr (split_world M seed w) = next_addr w + 3"
  "np_random (split_world M seed w) = Some seed"
  "py_random (split_world M seed w) = py_random w"
  by (simp_all add: split_world_def)

lemma tst_le_rated:
  assumes "0 < ratio" "ratio < 1"
  shows "0 \<le> test_cut ratio" "test_cut ratio \<le> 99"
    "nat ((int r * test_cut ratio) div 100) \<le> r"
    "0 < r \<Longrightarrow> nat ((int r * test_cut ratio) div 100) < r"
    "test_cut ratio = \<lfloor>(1 - ratio) * 100\<rfloor>"
proof -
  have pos: "0 \<le> (1 - ratio) * 100" and lt: "(1 - ratio) * 100 < 100" using assms by simp_all
  then show fl: "test_cut ratio = \<lfloor>(1 - ratio) * 100\<rfloor>" by (simp add: test_cut_def py_int_def)
  show c0: "0 \<le> test_cut ratio" unfolding fl using pos by simp
  have "\<lfloor>(1 - ratio) * 100\<rfloor> < 100" using lt by (simp add: floor_less_iff)
  then show c99: "test_cut ratio \<le> 99" unfolding fl by simp
  have "int r * test_cut ratio \<le> int r * 99" using c99 by (simp add: mult_left_mono)
  then have d: "(int r * test_cut ratio) div 100 \<le> (int r * 99) div 100"
    by (rule zdiv_mono1) simp
  have "(int r * 99) div 100 \<le> int r" by simp
  with d show "nat ((int r * test_cut ratio) div 100) \<le> r" by simp
  show "nat ((int r * test_cut ratio) div 100) < r" if "0 < r"
  proof -
    have "(int r * 99) div 100 < int r" using that by simp
    with d have "(int r * test_cut ratio) div 100 < int r" by simp
    then show ?thesis using that by simp
  qed
qed


lemma stratified_split_Inr:
  fixes s :: "('u::linorder, 'i, 'r::comm_monoid_add) splitter"
  assumes run: "stratified_split s ratio seed w = Inr (res, s', w')"
  shows "df s \<noteq> []" and "0 \<le> seed \<and> seed < 2 ^ 32"
    and "s' = (gen_index s)\<lparr>AM := next_addr w\<rparr>"
    and "Xtr res = Suc (next_addr w)" and "Xtst res = Suc (Suc (next_addr w))"
    and "cells w' (AM s') = affinity (gen_index s)"
    and "\<And>a. a < next_addr w \<Longrightarrow> cells w' a = cells w a"
    and "next_addr w' = next_addr w + 3" and "np_random w' = Some seed"
    and "length (cells w' (AM s')) = Nusers s'"
    and "length (cells w' (Xtr res)) = Nusers s'"
    and "length (cells w' (Xtst res)) = Nusers s'"
    and "\<And>u. u < Nusers s' \<Longrightarrow>
           row_split (cells w' (AM s') ! u) (cells w' (Xtr res) ! u) (cells w' (Xtst res) ! u)"
    and "\<And>u. u < Nusers s' \<Longrightarrow>
           nnz (cells w' (Xtst res) ! u) =
             nat ((int (nnz (cells w' (AM s') ! u)) * test_cut ratio) div 100)"
    and "train_df res = map_back_sparse s' (cells w' (Xtr res))"
    and "test_df res = map_back_sparse s' (cells w' (Xtst res))"
    and "\<exists>u < Nusers s'. 0 < (int (nnz (cells w' (AM s') ! u)) * test_cut ratio) div 100"
proof -
  let ?a = "next_addr w"
  let ?M = "affinity (gen_index s)"
  let ?rated = "map nnz ?M"
  let ?tst = "map (\<lambda>r. (int r * test_cut ratio) div 100) ?rated"
  let ?w3 = "split_world ?M seed w"
  let ?N = "Nusers (gen_index s)"
  show seed: "0 \<le> seed \<and> seed < 2 ^ 32"
    using run stratified_split_early(1) [of seed s ratio w] by auto
  then show ne: "df s \<noteq> []"
    using run stratified_split_early(2) [of seed s ratio w] by auto
  note unf = stratified_split_unfold [OF conjunct1 [OF seed] conjunct2 [OF seed] ne, of ratio w]
  from run obtain w4 loc where
    loop: "split_loop (Suc ?a) (Suc (Suc ?a)) ?rated ?tst [0..<?N] (?w3, unbound) = Inr (w4, loc)"
    and del: "del_locals loc = Inr ()"
    unfolding unf by (auto split: sum.splits)
  from run have res: "res = \<lparr>Xtr = Suc ?a, Xtst = Suc (Suc ?a),
                      train_df = map_back_sparse ((gen_index s)\<lparr>AM := ?a\<rparr>) (cells w4 (Suc ?a)),
                      test_df = map_back_sparse ((gen_index s)\<lparr>AM := ?a\<rparr>)
                                   (cells w4 (Suc (Suc ?a))),
                      maps = (map_back_users (gen_index s), map_back_items (gen_index s))\<rparr>"
    and s': "s' = (gen_index s)\<lparr>AM := ?a\<rparr>" and w': "w' = w4"
    unfolding unf loop by (auto simp: del)
  have lenM: "length ?M = ?N" by (rule affinity_gen_index_shape(1))
  have ne': "Suc ?a \<noteq> Suc (Suc ?a)" by simp
  have same: "\<forall>u \<in> set [0..<?N]. cells ?w3 (Suc ?a) ! u = ?M ! u \<and>
                 cells ?w3 (Suc (Suc ?a)) ! u = ?M ! u"
    by (simp add: split_world_facts)
  have len: "\<forall>u \<in> set [0..<?N]. u < length (cells ?w3 (Suc ?a)) \<and>
                 u < length (cells ?w3 (Suc (Suc ?a)))"
    by (simp add: split_world_facts lenM)
  note post = split_loop_Inr [OF loop ne' distinct_upt same len]
  show "s' = (gen_index s)\<lparr>AM := ?a\<rparr>" by (rule s')
  show "Xtr res = Suc ?a" "Xtst res = Suc (Suc ?a)" by (simp_all add: res)
  show am: "cells w' (AM s') = ?M"
    using post by (simp add: s' w' split_world_facts)
  show "cells w' b = cells w b" if "b < ?a" for b
    using post that by (simp add: w' split_world_facts)
  show "next_addr w' = ?a + 3" "np_random w' = Some seed"
    using post by (simp_all add: w' split_world_facts)
  show "length (cells w' (AM s')) = Nusers s'" unfolding am by (simp add: lenM s')
  show "length (cells w' (Xtr res)) = Nusers s'" "length (cells w' (Xtst res)) = Nusers s'"
    using post by (simp_all add: res s' w' split_world_facts lenM)
  show "row_split (cells w' (AM s') ! u) (cells w' (Xtr res) ! u) (cells w' (Xtst res) ! u)"
    if "u < Nusers s'" for u
    using post that unfolding am by (simp add: res s' w')
  show "nnz (cells w' (Xtst res) ! u) =
          nat ((int (nnz (cells w' (AM s') ! u)) * test_cut ratio) div 100)"
    if "u < Nusers s'" for u
    using post that unfolding am by (simp add: res s' w' lenM)
  show "train_df res = map_back_sparse s' (cells w' (Xtr res))"
    "test_df res = map_back_sparse s' (cells w' (Xtst res))"
    by (simp_all add: res s' w')
  have "loc_sub_el loc \<noteq> None" using del by (auto simp: del_locals_def split: if_splits)
  then have "\<not> (\<forall>u \<in> set [0..<?N]. nat (?tst ! u) = 0)"
    using post by (simp add: unbound_def)
  then obtain u where "u < ?N" "nat (?tst ! u) \<noteq> 0" by auto
  then show "\<exists>u < Nusers s'. 0 < (int (nnz (cells w' (AM s') ! u)) * test_cut ratio) div 100"
    unfolding am by (intro exI [of _ u]) (simp add: s' lenM)
qed

lemma stratified_split_total:
  fixes s :: "('u::linorder, 'i, 'r::comm_monoid_add) splitter"
  assumes r: "0 < ratio" "ratio < 1" and seed: "0 \<le> seed" "seed < 2 ^ 32"
    and ne: "df s \<noteq> []"
  shows "stratified_split s ratio seed w = Inl (UnboundLocalError ''sub_el'') \<or>
         (\<exists>r. stratified_split s ratio seed w = Inr r)"
proof -
  let ?a = "next_addr w"
  let ?M = "affinity (gen_index s)"
  let ?rated = "map nnz ?M"
  let ?tst = "map (\<lambda>r. (int r * test_cut ratio) div 100) ?rated"
  let ?w3 = "split_world ?M seed w"
  let ?N = "Nusers (gen_index s)"
  note unf = stratified_split_unfold [OF seed ne, of ratio w]
  have lenM: "length ?M = ?N" by (rule affinity_gen_index_shape(1))
  have ne': "Suc ?a \<noteq> Suc (Suc ?a)" by simp
  have same: "\<forall>u \<in> set [0..<?N]. cells ?w3 (Suc ?a) ! u = ?M ! u \<and>
                 cells ?w3 (Suc (Suc ?a)) ! u = ?M ! u"
    by (simp add: split_world_facts)
  have len: "\<forall>u \<in> set [0..<?N]. u < length (cells ?w3 (Suc ?a)) \<and>
                 u < length (cells ?w3 (Suc (Suc ?a)))"
    by (simp add: split_world_facts lenM)
  have rated: "\<forall>u \<in> set [0..<?N]. ?rated ! u = nnz (?M ! u)"
    by (simp add: lenM)
  have le: "\<forall>u \<in> set [0..<?N]. nat (?tst ! u) \<le> nnz (?M ! u)"
    using tst_le_rated(3) [OF r] by (simp add: lenM)
  from split_loop_total [OF ne' distinct_upt same len rated le, of unbound]
  obtain w4 loc where
    loop: "split_loop (Suc ?a) (Suc (Suc ?a)) ?rated ?tst [0..<?N] (?w3, unbound) = Inr (w4, loc)"
    by fastforce
  have "0 < ?N" using ne by (simp add: gen_index_fields card_gt_0_iff)
  then have "[0..<?N] \<noteq> []" by simp
  with split_loop_Inr [OF loop ne' distinct_upt same len]
  have "loc_idx loc \<noteq> None" "loc_idx_tst loc \<noteq> None" by simp_all
  then have "del_locals loc = Inl (UnboundLocalError ''sub_el'') \<or> del_locals loc = Inr ()"
    by (auto simp: del_locals_def)
  then show ?thesis unfolding unf loop by auto
qed


lemma test_cut_examples:
  "test_cut (1/2) = 50" "test_cut (3/4) = 25" "test_cut (149/200) = 25"
  by (simp_all add: test_cut_def py_int_def floor_eq_iff)

lemmas eval_defs =
  stratified_split_def np_random_seed_def test_cut_examples gen_affinity_matrix_def
  coo_matrix_def coo_toarray_def series_map_def
  init_def world0_def ndarray_copy_def new_array_def gen_index_def
  Let_def sort_values_def unique_def dict_of_def zeros_def coo_add_def col_user_def col_item_def
  col_rating_def nonzero_idx_def enumerate_eq_zip nnz_def split_row_def choice_def randbelow_def
  list_remove_def assign_zero_def set_zero_def unbound_def del_locals_def map_back_sparse_eq

text \<open>The builder on a table with a repeated (user, item) pair: the ratings 5 and 2 add up.\<close>

lemma example_duplicates:
  "\<exists>s' w'.
     gen_affinity_matrix (gen_index (init [(1::nat, 1::nat, 5::int), (1, 1, 2)])) world0 =
       Inr (s', w') \<and>
     cells w' (AM s') = [[7]]"
  by (simp add: eval_defs)

text \<open>The scenario of a table with three ratings of two users, split at ratio 1/2.\<close>

lemma example_split:
  "\<exists>res s' w'.
     stratified_split (init [(1::nat, 1::nat, 5::int), (1, 2, 3), (2, 1, 4)]) (1/2) 42 world0 =
       Inr (res, s', w') \<and>
     Nusers s' = 2 \<and> AM s' = 0 \<and> Xtr res = 1 \<and> Xtst res = 2 \<and>
     cells w' 0 = [[5, 3], [4, 0]] \<and>
     cells w' 1 = [[0, 3], [4, 0]] \<and>
     cells w' 2 = [[5, 0], [0, 0]]"
  by (simp add: eval_defs)

text \<open>
  Claim C2. For every input and every user row \<open>u\<close>, the train and test matrices that
  \<open>stratified_split\<close> returns satisfy: the non-zero columns of \<open>train[u]\<close> and of
  \<open>test[u]\<close> are disjoint, their union is the set of non-zero columns of row \<open>u\<close> of the
  affinity matrix, and the two non-zero counts add up to the count of that row.
\<close>

theorem split_partition:
  fixes s :: "('u::linorder, 'i, 'r::comm_monoid_add) splitter"
  assumes "stratified_split s ratio seed w = Inr (res, s', w')" and "u < Nusers s'"
  shows "set (nonzero_idx (cells w' (Xtr res) ! u)) \<inter>
           set (nonzero_idx (cells w' (Xtst res) ! u)) = {} \<and>
         set (nonzero_idx (cells w' (Xtr res) ! u)) \<union>
           set (nonzero_idx (cells w' (Xtst res) ! u)) =
           set (nonzero_idx (cells w' (AM s') ! u)) \<and>
         nnz (cells w' (Xtr res) ! u) + nnz (cells w' (Xtst res) ! u) =
           nnz (cells w' (AM s') ! u) \<and>
         cells w' (AM s') = affinity (gen_index s)"
  using row_split_nonzero [OF stratified_split_Inr(13) [OF assms]]
    stratified_split_Inr(6) [OF assms(1)]
  by simp

theorem split_partition_witness:
  "\<exists>res s' w'.
     stratified_split (init [(1::nat, 1::nat, 5::int), (1, 2, 3), (2, 1, 4)]) (1/2) 42 world0 =
       Inr (res, s', w') \<and> 0 < Nusers s' \<and>
     set (nonzero_idx (cells w' (Xtr res) ! 0)) \<inter>
       set (nonzero_idx (cells w' (Xtst res) ! 0)) = {} \<and>
     set (nonzero_idx (cells w' (Xtr res) ! 0)) \<union>
       set (nonzero_idx (cells w' (Xtst res) ! 0)) = {0, 1} \<and>
     nnz (cells w' (Xtr res) ! 0) + nnz (cells w' (Xtst res) ! 0) = 2"
proof -
  from example_split obtain res s' w' where
    run: "stratified_split (init [(1::nat, 1::nat, 5::int), (1, 2, 3), (2, 1, 4)]) (1/2) 42 world0
            = Inr (res, s', w')"
    and n: "Nusers s' = 2" and am: "AM s' = 0" "cells w' 0 = [[5, 3], [4, 0]]"
    by blast
  have u: "0 < Nusers s'" using n by simp
  have o: "set (nonzero_idx (cells w' (AM s') ! 0)) = {0, 1}" "nnz (cells w' (AM s') ! 0) = 2"
    by (auto simp: am nonzero_idx_def nnz_def)
  from split_partition [OF run u] run u show ?thesis unfolding o by blast
qed




text \<open>
  Claim C9. \<open>stratified_split\<close> does not modify the affinity matrix: after the split the
  array \<open>self.AM\<close> is the matrix as \<open>gen_affinity_matrix\<close> built it. The train and test
  matrices are two new arrays, different from each other and from \<open>self.AM\<close>, none of
  them existed before the call, and no array that existed before the call is changed.
\<close>

theorem split_no_aliasing:
  fixes s :: "('u::linorder, 'i, 'r::comm_monoid_add) splitter"
  assumes "stratified_split s ratio seed w = Inr (res, s', w')"
  shows "(\<exists>w1. gen_affinity_matrix (gen_index s) (w\<lparr>np_random := Some seed\<rparr>) = Inr (s', w1) \<and>
               cells w' (AM s') = cells w1 (AM s')) \<and>
         Xtr res \<noteq> AM s' \<and> Xtst res \<noteq> AM s' \<and> Xtr res \<noteq> Xtst res \<and>
         next_addr w \<le> AM s' \<and> next_addr w \<le> Xtr res \<and> next_addr w \<le> Xtst res \<and>
         AM s' < next_addr w' \<and> Xtr res < next_addr w' \<and> Xtst res < next_addr w' \<and>
         (\<forall>a < next_addr w. cells w' a = cells w a)"
proof -
  note p = stratified_split_Inr [OF assms]
  have "gen_affinity_matrix (gen_index s) (w\<lparr>np_random := Some seed\<rparr>) =
          Inr (s', w\<lparr>np_random := Some seed,
                     cells := (cells w)(next_addr w := affinity (gen_index s)),
                     next_addr := Suc (next_addr w)\<rparr>)"
    using p(1) by (simp add: gen_affinity_matrix_gen_index p(3))
  moreover have "AM s' = next_addr w" by (simp add: p(3))
  ultimately show ?thesis
    using p(4,5,6,7,8) by simp
qed

theorem split_no_aliasing_witness:
  "\<exists>res s' w'.
     stratified_split (init [(1::nat, 1::nat, 5::int), (1, 2, 3), (2, 1, 4)]) (1/2) 42 world0 =
       Inr (res, s', w') \<and>
     cells w' (AM s') = [[5, 3], [4, 0]] \<and>
     Xtr res \<noteq> AM s' \<and> Xtst res \<noteq> AM s' \<and> Xtr res \<noteq> Xtst res"
proof -
  from example_split obtain res s' w' where
    run: "stratified_split (init [(1::nat, 1::nat, 5::int), (1, 2, 3), (2, 1, 4)]) (1/2) 42 world0
            = Inr (res, s', w')"
    and am: "AM s' = 0" "cells w' 0 = [[5, 3], [4, 0]]"
    by blast
  from split_no_aliasing [OF run] have
    "Xtr res \<noteq> AM s' \<and> Xtst res \<noteq> AM s' \<and> Xtr res \<noteq> Xtst res" by blast
  with run am show ?thesis by auto
qed



section \<open>Where the code departs from its specification\<close>

lemma stratified_split_no_test_rows:
  fixes s :: "('u::linorder, 'i, 'r::comm_monoid_add) splitter"
  assumes r: "0 < ratio" "ratio < 1" and seed: "0 \<le> seed" "seed < 2 ^ 32"
    and ne: "df s \<noteq> []"
    and none: "\<forall>u < Nusers (gen_index s).
                 (int (nnz (affinity (gen_index s) ! u)) * test_cut ratio) div 100 = 0"
  shows "stratified_split s ratio seed w = Inl (UnboundLocalError ''sub_el'')"
proof (rule ccontr)
  assume "stratified_split s ratio seed w \<noteq> Inl (UnboundLocalError ''sub_el'')"
  with stratified_split_total [OF r seed ne, of w] obtain res s' w' where
    run: "stratified_split s ratio seed w = Inr (res, s', w')"
    by (metis prod_cases3)
  note p = stratified_split_Inr [OF run]
  from p(17) obtain u where "u < Nusers s'"
    "0 < (int (nnz (cells w' (AM s') ! u)) * test_cut ratio) div 100" by blast
  then show False using none unfolding p(6) by (simp add: p(3))
qed

text \<open>
  Claim C3 says that an empty table and a split in which every test count is zero both
  complete without error. The code raises in both cases. For the empty table
  \<open>gen_affinity_matrix\<close> fails in its sparsity report, which divides by the number of
  cells. For a table in which no row gets a test cell (one rating, ratio 3/4), the final
  \<^verbatim>\<open>del idx, sub_el, idx_tst\<close> fails because \<^verbatim>\<open>sub_el\<close> was never assigned. The
  same statement fails on \<^verbatim>\<open>idx\<close> when the loop runs over no user at all.
\<close>

theorem degenerate_inputs_raise:
  "gen_affinity_matrix (gen_index (init ([] :: (nat, nat, int) frame))) world0 =
     Inl (ValueError ''cannot convert float NaN to integer'') \<and>
   stratified_split (init ([] :: (nat, nat, int) frame)) (3/4) 1234 world0 =
     Inl (ValueError ''cannot convert float NaN to integer'') \<and>
   stratified_split (init [(1::nat, 1::nat, 5::int)]) (3/4) 1234 world0 =
     Inl (UnboundLocalError ''sub_el'') \<and>
   split_loop 1 2 [] [] [0..<0] (world0 :: int world, unbound) = Inr (world0, unbound) \<and>
   del_locals unbound = Inl (UnboundLocalError ''idx'')"
proof (intro conjI)
  show "split_loop 1 2 [] [] [0..<0] (world0 :: int world, unbound) = Inr (world0, unbound)"
    by simp
  show "del_locals unbound = Inl (UnboundLocalError ''idx'')"
    by (simp add: del_locals_def unbound_def)
  show "gen_affinity_matrix (gen_index (init ([] :: (nat, nat, int) frame))) world0 =
     Inl (ValueError ''cannot convert float NaN to integer'')"
    by (simp add: gen_affinity_matrix_gen_index init_def)
  show "stratified_split (init ([] :: (nat, nat, int) frame)) (3/4) 1234 world0 =
     Inl (ValueError ''cannot convert float NaN to integer'')"
    by (simp add: stratified_split_early(2) init_def)
  show "stratified_split (init [(1::nat, 1::nat, 5::int)]) (3/4) 1234 world0 =
     Inl (UnboundLocalError ''sub_el'')"
    by (simp add: eval_defs)
qed

text \<open>
  Claim C1 says that two calls with the same table, ratio and seed return identical
  matrices, whatever ran before. The code seeds numpy's generator with the seed but draws
  with \<^verbatim>\<open>random.choice\<close>, which uses the generator of the \<^verbatim>\<open>random\<close> module; the seed
  never reaches it. Two successive calls with seed 42 on the same table return different
  pairs, and so do two calls that differ only in the state of that generator.
\<close>

theorem same_seed_different_split:
  "(\<exists>r1 s1 w1 r2 s2 w2.
      stratified_split (init [(1::nat, 1::nat, 5::int), (1, 2, 3), (2, 1, 4)]) (1/2) 42 world0 =
        Inr (r1, s1, w1) \<and>
      stratified_split s1 (1/2) 42 w1 = Inr (r2, s2, w2) \<and>
      cells w1 (Xtr r1) = [[0, 3], [4, 0]] \<and> cells w1 (Xtst r1) = [[5, 0], [0, 0]] \<and>
      cells w2 (Xtr r2) = [[5, 0], [4, 0]] \<and> cells w2 (Xtst r2) = [[0, 3], [0, 0]]) \<and>
   (\<exists>r1 s1 w1 r2 s2 w2.
      stratified_split (init [(1::nat, 1::nat, 5::int), (1, 2, 3), (2, 1, 4)]) (1/2) 42 world0 =
        Inr (r1, s1, w1) \<and>
      stratified_split (init [(1::nat, 1::nat, 5::int), (1, 2, 3), (2, 1, 4)]) (1/2) 42
        (world0\<lparr>py_random := \<lambda>k. Suc k\<rparr>) = Inr (r2, s2, w2) \<and>
      cells w1 (Xtr r1) = [[0, 3], [4, 0]] \<and> cells w1 (Xtst r1) = [[5, 0], [0, 0]] \<and>
      cells w2 (Xtr r2) = [[5, 0], [4, 0]] \<and> cells w2 (Xtst r2) = [[0, 3], [0, 0]])"
proof (intro conjI)
  show "\<exists>r1 s1 w1 r2 s2 w2.
      stratified_split (init [(1::nat, 1::nat, 5::int), (1, 2, 3), (2, 1, 4)]) (1/2) 42 world0 =
        Inr (r1, s1, w1) \<and>
      stratified_split s1 (1/2) 42 w1 = Inr (r2, s2, w2) \<and>
      cells w1 (Xtr r1) = [[0, 3], [4, 0]] \<and> cells w1 (Xtst r1) = [[5, 0], [0, 0]] \<and>
      cells w2 (Xtr r2) = [[5, 0], [4, 0]] \<and> cells w2 (Xtst r2) = [[0, 3], [0, 0]]"
    by (simp add: eval_defs)
  show "\<exists>r1 s1 w1 r2 s2 w2.
      stratified_split (init [(1::nat, 1::nat, 5::int), (1, 2, 3), (2, 1, 4)]) (1/2) 42 world0 =
        Inr (r1, s1, w1) \<and>
      stratified_split (init [(1::nat, 1::nat, 5::int), (1, 2, 3), (2, 1, 4)]) (1/2) 42
        (world0\<lparr>py_random := \<lambda>k. Suc k\<rparr>) = Inr (r2, s2, w2) \<and>
      cells w1 (Xtr r1) = [[0, 3], [4, 0]] \<and> cells w1 (Xtst r1) = [[5, 0], [0, 0]] \<and>
      cells w2 (Xtr r2) = [[5, 0], [4, 0]] \<and> cells w2 (Xtst r2) = [[0, 3], [0, 0]]"
    by (simp add: eval_defs)
qed

end
